theory Spec2Isabelle
  imports Main
begin

section \<open>Toolbar tabs of the editor: \<^verbatim>\<open>plugins/common/ui/lib/toolbar.js\<close>\<close>

subsection \<open>Values\<close>

text \<open>
  An entry of an array of effective elements. The arrays hold markup elements (objects,
  always truthy); \<^verbatim>\<open>shouldActivateForElements\<close> pushes \<^verbatim>\<open>null\<close>; a read beyond the end
  of a JavaScript array gives \<^verbatim>\<open>undefined\<close>. The type \<open>'e\<close> of markup elements is opaque.
\<close>

datatype 'e node = Undefined | Null | Element 'e

text \<open>\<^verbatim>\<open>elements[ j ]\<close>: JavaScript array indexing.\<close>

definition item :: "'e node list \<Rightarrow> nat \<Rightarrow> 'e node" where
  "item xs j = (if j < length xs then xs ! j else Undefined)"

text \<open>Truthiness of an array entry, as \<^verbatim>\<open>el ? ... : ...\<close> tests it.\<close>

fun truthy :: "'e node \<Rightarrow> bool" where
  "truthy (Element e) = True"
| "truthy Null = False"
| "truthy Undefined = False"

text \<open>
  The value of \<^verbatim>\<open>options.activateOn\<close>. The documented shapes are a function, a boolean
  and a selector string; the property may be missing (\<^verbatim>\<open>undefined\<close>); \<^verbatim>\<open>null\<close>, numbers
  and other objects are the remaining JavaScript values. A function rule is modelled by
  the truth value it returns for an entry, which is all the caller reads.
\<close>

datatype 'e activate_on =
    FunctionRule "'e node \<Rightarrow> bool"
  | BooleanRule bool
  | StringRule string
  | UndefinedRule
  | NullRule
  | NumberRule int
  | ObjectRule

text \<open>The \<^verbatim>\<open>typeof\<close> operator on such a value.\<close>

fun typeof :: "'e activate_on \<Rightarrow> string" where
  "typeof (FunctionRule f) = ''function''"
| "typeof (BooleanRule b) = ''boolean''"
| "typeof (StringRule s) = ''string''"
| "typeof UndefinedRule = ''undefined''"
| "typeof NullRule = ''object''"
| "typeof (NumberRule n) = ''number''"
| "typeof ObjectRule = ''object''"

subsection \<open>The activation predicate (lines 83--104)\<close>

text \<open>
  \<^verbatim>\<open>coerceActivateOnToPredicate\<close>: one branch for each \<^verbatim>\<open>case\<close> of the
  \<^verbatim>\<open>switch( typeof activateOn )\<close>, in the order of the source. The selector test
  \<^verbatim>\<open>jQuery( el ).is( activateOn )\<close> belongs to the DOM library; it is the parameter \<open>is\<close>.
\<close>

definition coerceActivateOnToPredicate ::
    "('e \<Rightarrow> string \<Rightarrow> bool) \<Rightarrow> 'e activate_on \<Rightarrow> 'e node \<Rightarrow> bool" where
  "coerceActivateOnToPredicate is activateOn =
     (case activateOn of
        FunctionRule f \<Rightarrow> f
      | BooleanRule b \<Rightarrow> (\<lambda>el. b)
      | StringRule sel \<Rightarrow>
          (\<lambda>el. if truthy el then (case el of Element e \<Rightarrow> is e sel | _ \<Rightarrow> False) else False)
      | UndefinedRule \<Rightarrow> (\<lambda>el. True)
      | _ \<Rightarrow> (\<lambda>el. False))"

subsection \<open>Tabs\<close>

text \<open>
  The fields of a \<^verbatim>\<open>Tab\<close> object that the operations below read or write: \<^verbatim>\<open>index\<close>,
  \<^verbatim>\<open>activated\<close>, the predicate \<^verbatim>\<open>shouldActivate\<close>, and, for the two DOM nodes
  \<^verbatim>\<open>handle\<close> and \<^verbatim>\<open>panel\<close>, whether they are displayed and whether the handle carries the
  class \<^verbatim>\<open>ui-tabs-active\<close>.
\<close>

record 'e tab =
  index :: nat
  activated :: bool
  shouldActivate :: "'e node \<Rightarrow> bool"
  handle_visible :: bool
  handle_ui_tabs_active :: bool
  panel_visible :: bool

subsection \<open>\<^verbatim>\<open>shouldActivateForElements\<close> (lines 185--201)\<close>

text \<open>
  The loop \<^verbatim>\<open>while ( j ) { if ( shouldActivate( elements[ --j ] ) ) { return true; } }\<close>.
  The second component of the result is the value of the local \<^verbatim>\<open>j\<close> when the function
  returns: the index of the entry that was tested last.
\<close>

fun scan :: "('e node \<Rightarrow> bool) \<Rightarrow> 'e node list \<Rightarrow> nat \<Rightarrow> bool \<times> nat" where
  "scan p elements 0 = (False, 0)"
| "scan p elements (Suc j) =
     (if p (item elements j) then (True, j) else scan p elements j)"

text \<open>
  The array is the caller's: \<^verbatim>\<open>elements.push( null )\<close> changes it in place, so the
  function returns the array as it leaves it, beside its result.
\<close>

definition shouldActivateForElements :: "'e tab \<Rightarrow> 'e node list \<Rightarrow> bool \<times> 'e node list" where
  "shouldActivateForElements this elements =
     (let elements' = elements @ [Null];
          j = length elements'
      in (fst (scan (shouldActivate this) elements' j), elements'))"

subsection \<open>Editables and the tab widget\<close>

text \<open>
  The configuration of one tab (\<^verbatim>\<open>Aloha.settings.toolbar.tabs[i]\<close>). Only \<^verbatim>\<open>activateOn\<close>
  decides behaviour; the label and the component groups are handed to the renderer.
\<close>

record 'e tab_options =
  activateOn :: "'e activate_on"

text \<open>
  An editable, as far as the toolbar uses it: its array \<^verbatim>\<open>tabs\<close>, whether
  \<^verbatim>\<open>editable.toolbar\<close> has been created, its setting \<^verbatim>\<open>settings.toolbar.tabs\<close> (which
  may be missing), and the option \<^verbatim>\<open>selected\<close> of the tab widget that lives on the
  editable's tabs container.
\<close>

record 'e editable =
  tabs :: "'e tab list"
  selected :: "nat option"
  toolbar_rendered :: bool
  settings_tabs :: "'e tab_options list option"

text \<open>
  \<^verbatim>\<open>container.find( 'ul.aloha-toolbar-tab-handles>li' ).length\<close>. The list items under
  that \<^verbatim>\<open>ul\<close> are the handles of the editable's tabs: \<^verbatim>\<open>init\<close> appends one for each tab
  it builds (lines 157--159) and nothing removes one.
\<close>

definition handles :: "'e editable \<Rightarrow> nat" where
  "handles editable = length (tabs editable)"

text \<open>
  \<^verbatim>\<open>container.find( '.ui-tabs-active' ).length\<close>: the class is put on tab handles only.
\<close>

definition ui_tabs_active_count :: "'e editable \<Rightarrow> nat" where
  "ui_tabs_active_count editable = length (filter handle_ui_tabs_active (tabs editable))"

text \<open>
  Modelled from the spec: the tab widget (jQuery UI Tabs) is an external collaborator with
  the capability set \<open>select(index)\<close> and \<open>getSelectedIndex()\<close>; its code is not part of
  the repository. Selecting a tab makes its panel the visible one, marks its handle (and
  no other) as the active one, and records the index, which \<^verbatim>\<open>tabs( 'option', 'selected' )\<close>
  reads back. An index with no handle selects nothing.
\<close>

definition tabs_select :: "nat \<Rightarrow> 'e editable \<Rightarrow> 'e editable" where
  "tabs_select i editable =
     (if i < length (tabs editable)
      then editable\<lparr>
             selected := Some i,
             tabs := map (\<lambda>(k, t). t\<lparr>handle_ui_tabs_active := (k = i), panel_visible := (k = i)\<rparr>)
                         (enumerate 0 (tabs editable))\<rparr>
      else editable)"

text \<open>Assignment to the fields of the \<open>k\<close>-th tab object of an editable.\<close>

definition update_tab :: "nat \<Rightarrow> ('e tab \<Rightarrow> 'e tab) \<Rightarrow> 'e editable \<Rightarrow> 'e editable" where
  "update_tab k f editable = editable\<lparr>tabs := (tabs editable)[k := f (tabs editable ! k)]\<rparr>"

subsection \<open>The constructor \<^verbatim>\<open>Tab\<close> and \<^verbatim>\<open>init\<close> (lines 38--108, 124--164)\<close>

text \<open>
  \<^verbatim>\<open>this.index = editable.tabs.length\<close>, \<^verbatim>\<open>this.activated = false\<close>, the predicate from
  \<^verbatim>\<open>options.activateOn\<close>; handle and panel are appended and hidden.
\<close>

definition Tab :: "('e \<Rightarrow> string \<Rightarrow> bool) \<Rightarrow> 'e tab_options \<Rightarrow> 'e editable \<Rightarrow> 'e tab" where
  "Tab is options editable =
     \<lparr>index = length (tabs editable),
      activated = False,
      shouldActivate = coerceActivateOnToPredicate is (activateOn options),
      handle_visible = False,
      handle_ui_tabs_active = False,
      panel_visible = False\<rparr>"

subsection \<open>\<^verbatim>\<open>activate\<close> and \<^verbatim>\<open>deactivate\<close> (lines 206--265)\<close>

text \<open>
  A method call \<^verbatim>\<open>tab.activate()\<close> on the \<open>k\<close>-th tab of an editable takes the editable
  and \<open>k\<close>; \<^verbatim>\<open>this\<close> is \<open>tabs editable ! k\<close>. There is no call without a receiver: for
  \<open>k\<close> outside the array the functions leave the editable as it is.
\<close>

definition tab_show :: "nat \<Rightarrow> 'e editable \<Rightarrow> 'e editable" where
  "tab_show k editable = update_tab k (\<lambda>t. t\<lparr>handle_visible := True\<rparr>) editable"

definition tab_hide :: "nat \<Rightarrow> 'e editable \<Rightarrow> 'e editable" where
  "tab_hide k editable = update_tab k (\<lambda>t. t\<lparr>handle_visible := False\<rparr>) editable"

definition activate :: "nat \<Rightarrow> 'e editable \<Rightarrow> 'e editable" where
  "activate k editable =
     (if k < length (tabs editable) \<and> handles editable \<noteq> 0
      then
        let ed1 = tab_show k editable;
            ed2 = update_tab k (\<lambda>t. t\<lparr>activated := True\<rparr>) ed1;
            this = tabs ed2 ! k
        in if ui_tabs_active_count ed2 = 0 then tabs_select (index this) ed2
           else if selected ed2 = Some (index this) then tabs_select (index this) ed2
           else ed2
      else editable)"

text \<open>
  The loop \<^verbatim>\<open>for ( var i = 0; i < tabs.length; ++i ) { if ( tabs[i].activated ) { ...
  return; } }\<close> over the tabs from position \<open>i\<close> on: the position of the first activated
  tab, if there is one.
\<close>

fun first_activated :: "'e tab list \<Rightarrow> nat \<Rightarrow> nat option" where
  "first_activated [] i = None"
| "first_activated (t # ts) i = (if activated t then Some i else first_activated ts (Suc i))"

definition deactivate :: "nat \<Rightarrow> 'e editable \<Rightarrow> 'e editable" where
  "deactivate k editable =
     (if k < length (tabs editable) \<and> handles editable \<noteq> 0
      then
        let ed1 = tab_hide k editable;
            ed2 = update_tab k (\<lambda>t. t\<lparr>activated := False\<rparr>) ed1;
            this = tabs ed2 ! k
        in if Some (index this) = selected ed2
           then (case first_activated (tabs ed2) 0 of
                   Some i \<Rightarrow> tabs_select i ed2
                 | None \<Rightarrow> update_tab k (\<lambda>t. t\<lparr>handle_ui_tabs_active := False\<rparr>) ed2)
           else ed2
      else editable)"

subsection \<open>The toolbar (lines 281--485)\<close>

text \<open>
  \<^verbatim>\<open>toolbar.active\<close> is \<^verbatim>\<open>null\<close>, \<^verbatim>\<open>false\<close> or an editable. Editables are objects
  shared by reference; they are named by a number and kept in a store.
\<close>

datatype active_ref = ActiveNull | ActiveFalse | ActiveEditable nat

fun is_active :: "active_ref \<Rightarrow> bool" where
  "is_active (ActiveEditable a) = True"
| "is_active ActiveNull = False"
| "is_active ActiveFalse = False"

text \<open>
  The state the toolbar's operations work on: \<^verbatim>\<open>toolbar.active\<close>, the editables, whether
  the toolbar element is displayed (\<^verbatim>\<open>fadeIn\<close>, \<^verbatim>\<open>fadeOut\<close>), the global flag
  \<^verbatim>\<open>Aloha.eventHandled\<close>, and the pending callbacks of \<^verbatim>\<open>setTimeout\<close>: the time at
  which each is due and the editable of the event that scheduled it, against a clock
  \<open>now\<close> that counts the time units of \<^verbatim>\<open>setTimeout\<close>. The fade is recorded by its
  outcome; which editable's wrapper hangs under the toolbar element (\<^verbatim>\<open>detach\<close>,
  \<^verbatim>\<open>append\<close>) is display state that no operation reads, and is left out.
\<close>

record 'e toolbar =
  active :: active_ref
  editables :: "nat \<Rightarrow> 'e editable"
  element_visible :: bool
  eventHandled :: bool
  now :: nat
  timeouts :: "(nat \<times> nat) list"

text \<open>The selection range handed to \<^verbatim>\<open>checkActiveTabs\<close>, documented as a
  \<^verbatim>\<open>RangeObject\<close>; the code provides for a call without the argument (\<^verbatim>\<open>undefined\<close>,
  here \<open>None\<close>) and for a range without the property.\<close>

record 'e range_object =
  markupEffectiveAtStart :: "'e node list option"

text \<open>The body of the callback of \<^verbatim>\<open>jQuery.each( this.active.tabs, ... )\<close> for the tab
  at position \<open>k\<close>; the array \<^verbatim>\<open>effective\<close> is shared by all the calls.\<close>

definition check_tab :: "nat \<Rightarrow> 'e editable \<times> 'e node list \<Rightarrow> 'e editable \<times> 'e node list" where
  "check_tab k s =
     (let editable = fst s;
          this = tabs editable ! k;
          r = shouldActivateForElements this (snd s)
      in if fst r
         then (if \<not> activated this then activate k editable else editable, snd r)
         else (if activated this then deactivate k editable else editable, snd r))"

definition each_tab :: "'e editable \<Rightarrow> 'e node list \<Rightarrow> 'e editable \<times> 'e node list" where
  "each_tab editable effective =
     fold check_tab [0..<length (tabs editable)] (editable, effective)"

definition effective_elements :: "'e range_object option \<Rightarrow> 'e node list" where
  "effective_elements rangeObject =
     (case rangeObject of
        None \<Rightarrow> []
      | Some r \<Rightarrow>
          (case markupEffectiveAtStart r of
             None \<Rightarrow> []
           | Some m \<Rightarrow> map (item m) [0..<length m]))"

definition checkActiveTabs :: "'e range_object option \<Rightarrow> 'e toolbar \<Rightarrow> 'e toolbar" where
  "checkActiveTabs rangeObject this =
     (let effective = effective_elements rangeObject
      in case active this of
           ActiveEditable a \<Rightarrow>
             this\<lparr>editables := (editables this)(a := fst (each_tab (editables this a) effective))\<rparr>
         | _ \<Rightarrow> this)"

text \<open>
  \<^verbatim>\<open>initializeTabs\<close> and \<^verbatim>\<open>render\<close>. The widget's constructor \<^verbatim>\<open>container.tabs()\<close> is
  the parameter \<open>create\<close>.
\<close>

fun push_tabs :: "('e \<Rightarrow> string \<Rightarrow> bool) \<Rightarrow> 'e tab_options list \<Rightarrow> 'e editable \<Rightarrow> 'e editable" where
  "push_tabs is [] editable = editable"
| "push_tabs is (options # rest) editable =
     push_tabs is rest (editable\<lparr>tabs := tabs editable @ [Tab is options editable]\<rparr>)"

definition initializeTabs ::
    "('e \<Rightarrow> string \<Rightarrow> bool) \<Rightarrow> ('e editable \<Rightarrow> 'e editable) \<Rightarrow> 'e tab_options list
       \<Rightarrow> 'e editable \<Rightarrow> 'e editable" where
  "initializeTabs is create tabs_settings editable = create (push_tabs is tabs_settings editable)"

definition render ::
    "('e \<Rightarrow> string \<Rightarrow> bool) \<Rightarrow> ('e editable \<Rightarrow> 'e editable) \<Rightarrow> 'e editable \<Rightarrow> 'e editable" where
  "render is create editable =
     (let ed1 = editable\<lparr>toolbar_rendered := True\<rparr>;
          tabs_settings =
            (case settings_tabs ed1 of
               Some ts \<Rightarrow> if length ts \<noteq> 0 then ts else [\<lparr>activateOn = BooleanRule True\<rparr>]
             | None \<Rightarrow> [\<lparr>activateOn = BooleanRule True\<rparr>])
      in initializeTabs is create tabs_settings ed1)"

definition toolbar_show ::
    "('e \<Rightarrow> string \<Rightarrow> bool) \<Rightarrow> ('e editable \<Rightarrow> 'e editable) \<Rightarrow> nat \<Rightarrow> 'e toolbar \<Rightarrow> 'e toolbar" where
  "toolbar_show is create e this =
     (let st1 = (if \<not> toolbar_rendered (editables this e)
                 then this\<lparr>editables := (editables this)(e := render is create (editables this e))\<rparr>
                 else this)
      in st1\<lparr>element_visible := True, active := ActiveEditable e\<rparr>)"

definition toolbar_hide :: "nat \<Rightarrow> 'e toolbar \<Rightarrow> 'e toolbar" where
  "toolbar_hide e this =
     (if \<not> eventHandled this
      then this\<lparr>active := ActiveNull, element_visible := False\<rparr>
      else this)"

subsection \<open>The event handlers (lines 410--431)\<close>

definition selection_changed :: "'e range_object option \<Rightarrow> 'e toolbar \<Rightarrow> 'e toolbar" where
  "selection_changed rangeObject toolbar = checkActiveTabs rangeObject toolbar"

definition editable_activated ::
    "('e \<Rightarrow> string \<Rightarrow> bool) \<Rightarrow> ('e editable \<Rightarrow> 'e editable) \<Rightarrow> nat \<Rightarrow> 'e toolbar \<Rightarrow> 'e toolbar" where
  "editable_activated is create e toolbar = toolbar_show is create e toolbar"

text \<open>The function given to \<^verbatim>\<open>setTimeout\<close>, when it runs.\<close>

definition timeout_callback :: "nat \<Rightarrow> 'e toolbar \<Rightarrow> 'e toolbar" where
  "timeout_callback e toolbar =
     (if \<not> is_active (active toolbar) then toolbar_hide e toolbar else toolbar)"

definition editable_deactivated :: "nat \<Rightarrow> 'e toolbar \<Rightarrow> 'e toolbar" where
  "editable_deactivated e toolbar =
     toolbar\<lparr>active := ActiveFalse, timeouts := timeouts toolbar @ [(now toolbar + 10, e)]\<rparr>"

text \<open>
  Time passing between two events, as the browser's timers see it: the clock moves on
  by \<open>d\<close> units and the callbacks that are due by then run, in the order in which they
  were scheduled. No callback runs before it is due.
\<close>

definition advance :: "nat \<Rightarrow> 'e toolbar \<Rightarrow> 'e toolbar" where
  "advance d toolbar =
     (let t = now toolbar + d;
          due = filter (\<lambda>(at, e). at \<le> t) (timeouts toolbar);
          later = filter (\<lambda>(at, e). \<not> at \<le> t) (timeouts toolbar)
      in fold (\<lambda>(at, e). timeout_callback e) due (toolbar\<lparr>now := t, timeouts := later\<rparr>))"

subsection \<open>Intermediate states and reachable editables\<close>

text \<open>
  The editable after the first two statements of \<^verbatim>\<open>activate\<close>
  (\<^verbatim>\<open>this.show(); this.activated = true;\<close>) and of \<^verbatim>\<open>deactivate\<close>
  (\<^verbatim>\<open>this.hide(); this.activated = false;\<close>).
\<close>

definition switched_on :: "nat \<Rightarrow> 'e editable \<Rightarrow> 'e editable" where
  "switched_on k editable = update_tab k (\<lambda>t. t\<lparr>activated := True\<rparr>) (tab_show k editable)"

definition switched_off :: "nat \<Rightarrow> 'e editable \<Rightarrow> 'e editable" where
  "switched_off k editable = update_tab k (\<lambda>t. t\<lparr>activated := False\<rparr>) (tab_hide k editable)"

text \<open>
  What holds of an editable whose tabs were built by \<^verbatim>\<open>initializeTabs\<close> and changed by
  \<^verbatim>\<open>activate\<close>, \<^verbatim>\<open>deactivate\<close> and the widget only: every tab's \<^verbatim>\<open>index\<close> is its
  position; a handle carries the active class only if the widget records its tab as the
  selected one; and a tab is activated only while some handle carries the class.
\<close>

definition index_ok :: "'e editable \<Rightarrow> bool" where
  "index_ok editable = (map index (tabs editable) = [0..<length (tabs editable)])"

definition marker_on_selected :: "'e editable \<Rightarrow> bool" where
  "marker_on_selected editable =
     list_all (\<lambda>t. handle_ui_tabs_active t \<longrightarrow> selected editable = Some (index t)) (tabs editable)"

definition activated_needs_marker :: "'e editable \<Rightarrow> bool" where
  "activated_needs_marker editable =
     (ui_tabs_active_count editable = 0 \<longrightarrow> list_all (\<lambda>t. \<not> activated t) (tabs editable))"

definition consistent :: "'e editable \<Rightarrow> bool" where
  "consistent editable =
     (index_ok editable \<and> marker_on_selected editable \<and> activated_needs_marker editable)"

subsection \<open>Example states\<close>

text \<open>
  Markup elements named by their tag; a selector matches the element whose tag it is.
\<close>

definition tag_is :: "string \<Rightarrow> string \<Rightarrow> bool" where
  "tag_is e sel = (e = sel)"

definition fresh :: "string editable" where
  "fresh = \<lparr>tabs = [], selected = None, toolbar_rendered = True, settings_tabs = None\<rparr>"

text \<open>Three tabs A, B, C: A and B activated, C not, B selected.\<close>

definition abc :: "string editable" where
  "abc = \<lparr>tabs =
       [\<lparr>index = 0, activated = True, shouldActivate = (\<lambda>el. True),
          handle_visible = True, handle_ui_tabs_active = False, panel_visible = False\<rparr>,
        \<lparr>index = 1, activated = True, shouldActivate = (\<lambda>el. True),
          handle_visible = True, handle_ui_tabs_active = True, panel_visible = True\<rparr>,
        \<lparr>index = 2, activated = False, shouldActivate = (\<lambda>el. False),
          handle_visible = False, handle_ui_tabs_active = False, panel_visible = False\<rparr>],
     selected = Some 1, toolbar_rendered = True, settings_tabs = None\<rparr>"

text \<open>Two tabs: only the second is activated, and it is the selected one.\<close>

definition only_b :: "string editable" where
  "only_b = \<lparr>tabs =
       [\<lparr>index = 0, activated = False, shouldActivate = (\<lambda>el. False),
          handle_visible = False, handle_ui_tabs_active = False, panel_visible = False\<rparr>,
        \<lparr>index = 1, activated = True, shouldActivate = (\<lambda>el. True),
          handle_visible = True, handle_ui_tabs_active = True, panel_visible = True\<rparr>],
     selected = Some 1, toolbar_rendered = True, settings_tabs = None\<rparr>"

text \<open>An editable with a tab for lists and a tab for tables, as \<^verbatim>\<open>initializeTabs\<close>
  builds them; a toolbar shown for editable 0 at time 100, with no callback pending; and
  the same toolbar with no editable active.\<close>

definition lists_table :: "string editable" where
  "lists_table =
     push_tabs tag_is [\<lparr>activateOn = StringRule ''ul''\<rparr>, \<lparr>activateOn = StringRule ''table''\<rparr>] fresh"

definition idle :: "string toolbar" where
  "idle = \<lparr>active = ActiveEditable 0, editables = (\<lambda>e. lists_table),
           element_visible = True, eventHandled = False, now = 100, timeouts = []\<rparr>"

definition unfocused :: "string toolbar" where
  "unfocused = idle\<lparr>active := ActiveNull, element_visible := False\<rparr>"

section \<open>Properties\<close>

subsection \<open>The scan of \<^verbatim>\<open>shouldActivateForElements\<close>\<close>

lemma scan_found:
  "scan p es n = (True, j) \<Longrightarrow>
     j < n \<and> p (item es j) \<and> (\<forall>i. j < i \<and> i < n \<longrightarrow> \<not> p (item es i))"
proof (induction n)
  case 0
  then show ?case by simp
next
  case (Suc n)
  show ?case
  proof (cases "p (item es n)")
    case True
    with Suc.prems have "j = n" by simp
    with True show ?thesis by auto
  next
    case False
    with Suc.prems have "scan p es n = (True, j)" by simp
    from Suc.IH [OF this] False show ?thesis
      by (auto simp: less_Suc_eq)
  qed
qed

lemma fst_scan_iff: "fst (scan p es n) = (\<exists>i<n. p (item es i))"
  by (induction n) (auto simp: less_Suc_eq)

lemma item_append_Null:
  "i < Suc (length es) \<Longrightarrow> item (es @ [Null]) i = (if i < length es then es ! i else Null)"
  by (auto simp: item_def nth_append)

lemma fst_shouldActivateForElements:
  "fst (shouldActivateForElements this es) =
     (shouldActivate this Null \<or> (\<exists>el \<in> set es. shouldActivate this el))"
proof -
  have "fst (shouldActivateForElements this es) =
          (\<exists>i<Suc (length es). shouldActivate this (item (es @ [Null]) i))"
    by (simp add: shouldActivateForElements_def Let_def fst_scan_iff)
  also have "\<dots> = (shouldActivate this Null \<or> (\<exists>i<length es. shouldActivate this (es ! i)))"
    by (auto simp: item_append_Null less_Suc_eq)
  also have "\<dots> = (shouldActivate this Null \<or> (\<exists>el \<in> set es. shouldActivate this el))"
    by (metis in_set_conv_nth)
  finally show ?thesis .
qed

lemma snd_shouldActivateForElements:
  "snd (shouldActivateForElements this es) = es @ [Null]"
  by (simp add: shouldActivateForElements_def Let_def)

text \<open>
  Claim C1. \<^verbatim>\<open>shouldActivateForElements( elements )\<close> appends one \<^verbatim>\<open>null\<close> to the list
  and scans the longer list from its end: when it returns true, the loop has stopped at an
  index \<open>j\<close> whose entry satisfies the predicate, and no entry behind \<open>j\<close> does (the
  entries before \<open>j\<close> are not looked at: \<open>j\<close> is where the loop variable stands on
  return); it returns false exactly when no entry of the longer list satisfies the
  predicate. So the result is true if and only if the predicate holds for \<^verbatim>\<open>null\<close> or
  for some element of the list it was given.
\<close>

theorem shouldActivateForElements_first_match_from_end:
  "snd (shouldActivateForElements this elements) = elements @ [Null]
   \<and> fst (shouldActivateForElements this elements) =
       fst (scan (shouldActivate this) (elements @ [Null]) (length (elements @ [Null])))
   \<and> (\<forall>j. scan (shouldActivate this) (elements @ [Null]) (length (elements @ [Null])) = (True, j) \<longrightarrow>
         j < length (elements @ [Null])
         \<and> shouldActivate this ((elements @ [Null]) ! j)
         \<and> (\<forall>i. j < i \<and> i < length (elements @ [Null]) \<longrightarrow>
               \<not> shouldActivate this ((elements @ [Null]) ! i)))
   \<and> (fst (shouldActivateForElements this elements) = False \<longleftrightarrow>
         (\<forall>i < length (elements @ [Null]). \<not> shouldActivate this ((elements @ [Null]) ! i)))
   \<and> (fst (shouldActivateForElements this elements) = True \<longleftrightarrow>
         shouldActivate this Null \<or> (\<exists>el \<in> set elements. shouldActivate this el))"
proof (intro conjI allI impI)
  let ?es = "elements @ [Null]" and ?p = "shouldActivate this"
  show "snd (shouldActivateForElements this elements) = ?es"
    by (rule snd_shouldActivateForElements)
  show "fst (shouldActivateForElements this elements) = fst (scan ?p ?es (length ?es))"
    by (simp add: shouldActivateForElements_def Let_def)
  show "(fst (shouldActivateForElements this elements) = True) =
          (?p Null \<or> (\<exists>el \<in> set elements. ?p el))"
    by (simp add: fst_shouldActivateForElements)
  show "(fst (shouldActivateForElements this elements) = False) =
          (\<forall>i < length ?es. \<not> ?p (?es ! i))"
    by (simp add: shouldActivateForElements_def Let_def fst_scan_iff item_def)
next
  fix j
  let ?es = "elements @ [Null]" and ?p = "shouldActivate this"
  assume s: "scan ?p ?es (length ?es) = (True, j)"
  from scan_found [OF s] have j: "j < length ?es" and pj: "?p (item ?es j)"
    and rest: "\<forall>i. j < i \<and> i < length ?es \<longrightarrow> \<not> ?p (item ?es i)" by blast+
  show "j < length ?es" by (rule j)
  from pj j show "?p (?es ! j)" by (simp add: item_def)
  fix i assume "j < i \<and> i < length ?es"
  with rest show "\<not> ?p (?es ! i)" by (auto simp: item_def)
qed

text \<open>
  A tab for the selector \<open>ul\<close> on the elements \<open>ul, p, ul, li\<close>: the scan tests
  \<^verbatim>\<open>null\<close>, \<open>li\<close> and the second \<open>ul\<close>, and returns there, at index 2.
\<close>

theorem shouldActivateForElements_first_match_from_end_witness:
  "scan (shouldActivate (Tab tag_is \<lparr>activateOn = StringRule ''ul''\<rparr> fresh))
        ([Element ''ul'', Element ''p'', Element ''ul'', Element ''li''] @ [Null])
        (length ([Element ''ul'', Element ''p'', Element ''ul'', Element ''li''] @ [Null]))
     = (True, 2)
   \<and> fst (shouldActivateForElements (Tab tag_is \<lparr>activateOn = StringRule ''ul''\<rparr> fresh)
            [Element ''ul'', Element ''p'', Element ''ul'', Element ''li'']) = True
   \<and> snd (shouldActivateForElements (Tab tag_is \<lparr>activateOn = StringRule ''ul''\<rparr> fresh)
            [Element ''ul'', Element ''p'', Element ''ul'', Element ''li''])
       = [Element ''ul'', Element ''p'', Element ''ul'', Element ''li'', Null]
   \<and> \<not> shouldActivate (Tab tag_is \<lparr>activateOn = StringRule ''ul''\<rparr> fresh) (Element ''li'')
   \<and> \<not> shouldActivate (Tab tag_is \<lparr>activateOn = StringRule ''ul''\<rparr> fresh) Null"
proof -
  let ?t = "Tab tag_is \<lparr>activateOn = StringRule ''ul''\<rparr> fresh"
  let ?es = "[Element ''ul'', Element ''p'', Element ''ul'', Element ''li'']"
  have s: "scan (shouldActivate ?t) (?es @ [Null]) (length (?es @ [Null])) = (True, 2)"
    by (simp add: Tab_def coerceActivateOnToPredicate_def item_def tag_is_def)
  note c = shouldActivateForElements_first_match_from_end [of ?t ?es]
  from c have a: "snd (shouldActivateForElements ?t ?es) = ?es @ [Null]"
    and b: "fst (shouldActivateForElements ?t ?es) =
              fst (scan (shouldActivate ?t) (?es @ [Null]) (length (?es @ [Null])))"
    by blast+
  from c s have r: "\<forall>i. 2 < i \<and> i < length (?es @ [Null]) \<longrightarrow> \<not> shouldActivate ?t ((?es @ [Null]) ! i)"
    by blast
  from r have "(2::nat) < 3 \<and> 3 < length (?es @ [Null]) \<longrightarrow> \<not> shouldActivate ?t ((?es @ [Null]) ! 3)"
    and "(2::nat) < 4 \<and> 4 < length (?es @ [Null]) \<longrightarrow> \<not> shouldActivate ?t ((?es @ [Null]) ! 4)"
    by blast+
  then have n: "\<not> shouldActivate ?t (Element ''li'')" "\<not> shouldActivate ?t Null"
    by simp_all
  from s a b n show ?thesis by simp
qed

subsection \<open>The predicate of a rule\<close>

text \<open>
  Claim C2. \<^verbatim>\<open>coerceActivateOnToPredicate\<close> is a total function of the rule (it has no
  failing branch): a function rule is returned as it is; a boolean rule gives the
  predicate that returns the boolean whatever the argument; a string rule gives a
  predicate that is false on \<^verbatim>\<open>null\<close> (and on \<^verbatim>\<open>undefined\<close>) and on an element is the
  selector test; \<^verbatim>\<open>undefined\<close> gives the predicate that is always true; and every rule
  whose \<^verbatim>\<open>typeof\<close> is none of these four gives the predicate that is always false.
\<close>

theorem coerceActivateOnToPredicate_by_rule_shape:
  "coerceActivateOnToPredicate is (FunctionRule f) = f
   \<and> coerceActivateOnToPredicate is (BooleanRule b) = (\<lambda>el. b)
   \<and> coerceActivateOnToPredicate is (StringRule sel) Null = False
   \<and> coerceActivateOnToPredicate is (StringRule sel) Undefined = False
   \<and> coerceActivateOnToPredicate is (StringRule sel) (Element e) = is e sel
   \<and> coerceActivateOnToPredicate is UndefinedRule = (\<lambda>el. True)
   \<and> (typeof rule \<notin> {''function'', ''boolean'', ''string'', ''undefined''} \<longrightarrow>
        coerceActivateOnToPredicate is rule = (\<lambda>el. False))"
  by (cases rule) (simp_all add: coerceActivateOnToPredicate_def)

theorem coerceActivateOnToPredicate_by_rule_shape_witness:
  "typeof (NumberRule 7 :: string activate_on) \<notin> {''function'', ''boolean'', ''string'', ''undefined''}
   \<and> coerceActivateOnToPredicate tag_is (NumberRule 7) (Element ''ul'') = False
   \<and> coerceActivateOnToPredicate tag_is (StringRule ''ul'') (Element ''ul'') = True
   \<and> coerceActivateOnToPredicate tag_is (StringRule ''ul'') (Element ''p'') = False
   \<and> coerceActivateOnToPredicate tag_is (StringRule ''ul'') Null = False"
  using coerceActivateOnToPredicate_by_rule_shape
          [of tag_is "\<lambda>el. True" True "''ul''" "''ul''" "NumberRule 7"]
        coerceActivateOnToPredicate_by_rule_shape
          [of tag_is "\<lambda>el. True" True "''ul''" "''p''" "NumberRule 7"]
  by (simp add: tag_is_def)

lemma shouldActivate_Tab:
  "shouldActivate (Tab is options editable) = coerceActivateOnToPredicate is (activateOn options)"
  by (simp add: Tab_def)

text \<open>
  Claim C7. Whatever the list of elements, the empty list included: a tab whose predicate
  comes from the rule \<^verbatim>\<open>undefined\<close> has \<^verbatim>\<open>shouldActivateForElements\<close> return true, and
  a tab whose predicate comes from the rule \<^verbatim>\<open>false\<close> has it return false.
\<close>

theorem shouldActivateForElements_undefined_rule_and_false_rule:
  "(shouldActivate this = coerceActivateOnToPredicate is UndefinedRule \<longrightarrow>
      fst (shouldActivateForElements this elements) = True)
   \<and> (shouldActivate this = coerceActivateOnToPredicate is (BooleanRule False) \<longrightarrow>
      fst (shouldActivateForElements this elements) = False)"
  by (simp add: fst_shouldActivateForElements coerceActivateOnToPredicate_def)

theorem shouldActivateForElements_undefined_rule_and_false_rule_witness:
  "fst (shouldActivateForElements (Tab tag_is \<lparr>activateOn = UndefinedRule\<rparr> fresh) []) = True
   \<and> fst (shouldActivateForElements (Tab tag_is \<lparr>activateOn = UndefinedRule\<rparr> fresh)
            [Element ''p'']) = True
   \<and> fst (shouldActivateForElements (Tab tag_is \<lparr>activateOn = BooleanRule False\<rparr> fresh) []) = False
   \<and> fst (shouldActivateForElements (Tab tag_is \<lparr>activateOn = BooleanRule False\<rparr> fresh)
            [Element ''ul'', Element ''p'']) = False"
  using shouldActivateForElements_undefined_rule_and_false_rule
          [of "Tab tag_is \<lparr>activateOn = UndefinedRule\<rparr> fresh" tag_is "[]"]
        shouldActivateForElements_undefined_rule_and_false_rule
          [of "Tab tag_is \<lparr>activateOn = UndefinedRule\<rparr> fresh" tag_is "[Element ''p'']"]
        shouldActivateForElements_undefined_rule_and_false_rule
          [of "Tab tag_is \<lparr>activateOn = BooleanRule False\<rparr> fresh" tag_is "[]"]
        shouldActivateForElements_undefined_rule_and_false_rule
          [of "Tab tag_is \<lparr>activateOn = BooleanRule False\<rparr> fresh" tag_is
              "[Element ''ul'', Element ''p'']"]
  by (simp add: shouldActivate_Tab)

subsection \<open>The shared array of \<^verbatim>\<open>checkActiveTabs\<close>\<close>





subsection \<open>\<^verbatim>\<open>checkActiveTabs\<close> without an active editable\<close>

text \<open>
  Claim C8. When \<^verbatim>\<open>toolbar.active\<close> holds no editable (it is \<^verbatim>\<open>null\<close> or \<^verbatim>\<open>false\<close>),
  \<^verbatim>\<open>checkActiveTabs( range )\<close> leaves the whole state as it was, whatever the range
  (\<^verbatim>\<open>undefined\<close> included): no tab of any editable is changed.
\<close>

theorem checkActiveTabs_without_active_editable:
  "\<not> is_active (active this) \<Longrightarrow> checkActiveTabs rangeObject this = this"
  by (cases "active this") (simp_all add: checkActiveTabs_def Let_def)

text \<open>
  A selection inside a table: with editable 0 active the table tab is activated; with no
  editable active nothing is.
\<close>

theorem checkActiveTabs_without_active_editable_witness:
  "\<not> is_active (active unfocused)
   \<and> checkActiveTabs (Some \<lparr>markupEffectiveAtStart = Some [Element ''table'']\<rparr>) unfocused = unfocused
   \<and> checkActiveTabs None unfocused = unfocused
   \<and> map activated (tabs (editables unfocused 0)) = [False, False]
   \<and> map activated (tabs (editables
         (checkActiveTabs (Some \<lparr>markupEffectiveAtStart = Some [Element ''table'']\<rparr>) idle) 0))
       = [False, True]"
proof -
  have a: "\<not> is_active (active unfocused)" by (simp add: unfocused_def)
  have b: "map activated (tabs (editables unfocused 0)) = [False, False]"
    by (simp add: unfocused_def idle_def lists_table_def fresh_def Tab_def)
  have c: "map activated (tabs (editables
         (checkActiveTabs (Some \<lparr>markupEffectiveAtStart = Some [Element ''table'']\<rparr>) idle) 0))
       = [False, True]"
    by (simp add: idle_def lists_table_def fresh_def Tab_def checkActiveTabs_def
        effective_elements_def each_tab_def check_tab_def shouldActivateForElements_def
        coerceActivateOnToPredicate_def tag_is_def item_def activate_def deactivate_def
        handles_def tab_show_def tab_hide_def update_tab_def tabs_select_def
        ui_tabs_active_count_def enumerate_eq_zip Let_def)
  from checkActiveTabs_without_active_editable [OF a]
       checkActiveTabs_without_active_editable [OF a] a b c
  show ?thesis by simp
qed

subsection \<open>Reading the tabs after an operation\<close>

lemma length_tabs_select [simp]: "length (tabs (tabs_select i ed)) = length (tabs ed)"
  by (simp add: tabs_select_def)

lemma selected_tabs_select:
  "selected (tabs_select i ed) = (if i < length (tabs ed) then Some i else selected ed)"
  by (simp add: tabs_select_def)

lemma nth_tabs_select:
  "j < length (tabs ed) \<Longrightarrow>
   tabs (tabs_select i ed) ! j =
     (if i < length (tabs ed)
      then (tabs ed ! j)\<lparr>handle_ui_tabs_active := (j = i), panel_visible := (j = i)\<rparr>
      else tabs ed ! j)"
  by (simp add: tabs_select_def nth_enumerate_eq)

lemma length_update_tab [simp]: "length (tabs (update_tab k f ed)) = length (tabs ed)"
  by (simp add: update_tab_def)

lemma selected_update_tab [simp]: "selected (update_tab k f ed) = selected ed"
  by (simp add: update_tab_def)

lemma nth_update_tab:
  "j < length (tabs ed) \<Longrightarrow>
   tabs (update_tab k f ed) ! j = (if j = k then f (tabs ed ! k) else tabs ed ! j)"
  by (simp add: update_tab_def nth_list_update)

lemma length_switched_off [simp]: "length (tabs (switched_off k ed)) = length (tabs ed)"
  by (simp add: switched_off_def tab_hide_def)

lemma selected_switched_off [simp]: "selected (switched_off k ed) = selected ed"
  by (simp add: switched_off_def tab_hide_def)

lemma nth_switched_off:
  "j < length (tabs ed) \<Longrightarrow>
   tabs (switched_off k ed) ! j =
     (if j = k then (tabs ed ! k)\<lparr>handle_visible := False, activated := False\<rparr> else tabs ed ! j)"
  by (simp add: switched_off_def tab_hide_def nth_update_tab)

lemma length_switched_on [simp]: "length (tabs (switched_on k ed)) = length (tabs ed)"
  by (simp add: switched_on_def tab_show_def)

lemma selected_switched_on [simp]: "selected (switched_on k ed) = selected ed"
  by (simp add: switched_on_def tab_show_def)

lemma nth_switched_on:
  "j < length (tabs ed) \<Longrightarrow>
   tabs (switched_on k ed) ! j =
     (if j = k then (tabs ed ! k)\<lparr>handle_visible := True, activated := True\<rparr> else tabs ed ! j)"
  by (simp add: switched_on_def tab_show_def nth_update_tab)

lemma count_zero_iff:
  "(ui_tabs_active_count ed = 0) = (\<forall>j<length (tabs ed). \<not> handle_ui_tabs_active (tabs ed ! j))"
  unfolding ui_tabs_active_count_def length_0_conv filter_empty_conv
  by (metis in_set_conv_nth)

lemma count_switched_on [simp]: "ui_tabs_active_count (switched_on k ed) = ui_tabs_active_count ed"
proof -
  have "map handle_ui_tabs_active (tabs (switched_on k ed)) =
                 map handle_ui_tabs_active (tabs ed)"
    by (rule nth_equalityI) (simp_all add: nth_switched_on)
  then have "length (filter id (map handle_ui_tabs_active (tabs (switched_on k ed)))) =
             length (filter id (map handle_ui_tabs_active (tabs ed)))"
    by simp
  then show ?thesis
    by (simp add: ui_tabs_active_count_def filter_map comp_def)
qed

text \<open>The two methods, with the receiver in the array.\<close>

lemma deactivate_eq:
  "k < length (tabs ed) \<Longrightarrow>
   deactivate k ed =
     (if Some (index (tabs ed ! k)) = selected ed
      then (case first_activated (tabs (switched_off k ed)) 0 of
              Some i \<Rightarrow> tabs_select i (switched_off k ed)
            | None \<Rightarrow> update_tab k (\<lambda>t. t\<lparr>handle_ui_tabs_active := False\<rparr>) (switched_off k ed))
      else switched_off k ed)"
  by (auto simp: deactivate_def handles_def Let_def switched_off_def tab_hide_def update_tab_def
      split: option.splits)

lemma activate_eq:
  "k < length (tabs ed) \<Longrightarrow>
   activate k ed =
     (if ui_tabs_active_count ed = 0 \<or> selected ed = Some (index (tabs ed ! k))
      then tabs_select (index (tabs ed ! k)) (switched_on k ed)
      else switched_on k ed)"
proof -
  assume k: "k < length (tabs ed)"
  have "activate k ed =
     (if ui_tabs_active_count (switched_on k ed) = 0 \<or> selected ed = Some (index (tabs ed ! k))
      then tabs_select (index (tabs ed ! k)) (switched_on k ed)
      else switched_on k ed)"
    using k
    by (auto simp: activate_def handles_def Let_def switched_on_def tab_show_def update_tab_def
        ui_tabs_active_count_def)
  then show ?thesis by simp
qed

lemma first_activated_Some:
  "first_activated ts i = Some f \<Longrightarrow>
   i \<le> f \<and> f - i < length ts \<and> activated (ts ! (f - i)) \<and> (\<forall>m < f - i. \<not> activated (ts ! m))"
proof (induction ts arbitrary: i)
  case Nil
  then show ?case by simp
next
  case (Cons t ts)
  show ?case
  proof (cases "activated t")
    case True
    with Cons.prems show ?thesis by simp
  next
    case False
    with Cons.prems have "first_activated ts (Suc i) = Some f" by simp
    from Cons.IH [OF this]
    have le: "Suc i \<le> f" and len: "f - Suc i < length ts"
      and act: "activated (ts ! (f - Suc i))"
      and before: "\<forall>m < f - Suc i. \<not> activated (ts ! m)" by blast+
    from le have eq: "f - i = Suc (f - Suc i)" by arith
    have "\<forall>m < f - i. \<not> activated ((t # ts) ! m)"
    proof (intro allI impI)
      fix m assume "m < f - i"
      with eq before False show "\<not> activated ((t # ts) ! m)"
        by (cases m) auto
    qed
    with le len act eq show ?thesis by simp
  qed
qed

lemma first_activated_None:
  "(first_activated ts i = None) = (\<forall>t \<in> set ts. \<not> activated t)"
  by (induction ts arbitrary: i) auto

lemma no_other_activated:
  assumes "\<forall>j<length (tabs ed). j \<noteq> k \<longrightarrow> \<not> activated (tabs ed ! j)"
  shows "first_activated (tabs (switched_off k ed)) 0 = None"
proof -
  have "\<forall>t \<in> set (tabs (switched_off k ed)). \<not> activated t"
  proof
    fix t assume "t \<in> set (tabs (switched_off k ed))"
    then obtain j where "j < length (tabs ed)" "t = tabs (switched_off k ed) ! j"
      by (auto simp: in_set_conv_nth)
    with assms show "\<not> activated t"
      by (auto simp: nth_switched_off)
  qed
  then show ?thesis by (simp add: first_activated_None)
qed

subsection \<open>\<^verbatim>\<open>deactivate\<close> on the selected tab\<close>

text \<open>
  Claim C3. When the tab that is deactivated is the selected one (the widget's option
  \<^verbatim>\<open>selected\<close> is its index) and another tab is activated, \<^verbatim>\<open>deactivate\<close> selects the
  first tab, counting from position 0, that is activated once this tab's flag is cleared:
  the widget records its position \<open>f\<close>, no tab before \<open>f\<close> is activated, and \<open>f\<close> is not
  the deactivated tab. For the tabs A, B, C with A and B activated and B selected, the
  deactivation of B selects A and not C.
\<close>

theorem deactivate_selected_selects_first_activated:
  assumes k: "k < length (tabs editable)"
    and sel: "selected editable = Some (index (tabs editable ! k))"
    and j: "j < length (tabs editable)" "j \<noteq> k" "activated (tabs editable ! j)"
  shows "\<exists>f. selected (deactivate k editable) = Some f
            \<and> f < length (tabs editable) \<and> f \<noteq> k
            \<and> activated (tabs (deactivate k editable) ! f)
            \<and> (\<forall>i<f. \<not> activated (tabs (deactivate k editable) ! i))
            \<and> \<not> activated (tabs (deactivate k editable) ! k)
            \<and> handle_ui_tabs_active (tabs (deactivate k editable) ! f)
            \<and> panel_visible (tabs (deactivate k editable) ! f)"
proof -
  let ?off = "switched_off k editable"
  have "activated (tabs ?off ! j)"
    using j by (simp add: nth_switched_off)
  moreover have "tabs ?off ! j \<in> set (tabs ?off)"
    using j by simp
  ultimately have "first_activated (tabs ?off) 0 \<noteq> None"
    unfolding first_activated_None by blast
  then obtain f where f: "first_activated (tabs ?off) 0 = Some f" by blast
  from first_activated_Some [OF f]
  have flen: "f < length (tabs editable)" and fact: "activated (tabs ?off ! f)"
    and before: "\<forall>m<f. \<not> activated (tabs ?off ! m)" by simp_all
  have fk: "f \<noteq> k"
    using fact k by (auto simp: nth_switched_off)
  have res: "deactivate k editable = tabs_select f ?off"
    using k sel f by (simp add: deactivate_eq)
  have "selected (deactivate k editable) = Some f"
    using flen by (simp add: res selected_tabs_select)
  moreover have "activated (tabs (deactivate k editable) ! f)"
    using flen fact by (simp add: res nth_tabs_select)
  moreover have "\<forall>i<f. \<not> activated (tabs (deactivate k editable) ! i)"
    using flen before by (simp add: res nth_tabs_select)
  moreover have "\<not> activated (tabs (deactivate k editable) ! k)"
    using flen k by (simp add: res nth_tabs_select nth_switched_off)
  moreover have "handle_ui_tabs_active (tabs (deactivate k editable) ! f)"
    and "panel_visible (tabs (deactivate k editable) ! f)"
    using flen by (simp_all add: res nth_tabs_select)
  ultimately show ?thesis using flen fk by blast
qed

theorem deactivate_selected_selects_first_activated_witness:
  "1 < length (tabs abc) \<and> selected abc = Some (index (tabs abc ! 1))
   \<and> 0 < length (tabs abc) \<and> (0::nat) \<noteq> 1 \<and> activated (tabs abc ! 0)
   \<and> selected (deactivate 1 abc) = Some 0 \<and> selected (deactivate 1 abc) \<noteq> Some 2
   \<and> map activated (tabs (deactivate 1 abc)) = [True, False, False]"
  using deactivate_selected_selects_first_activated [of 1 abc 0]
  by (simp add: abc_def deactivate_def handles_def tab_hide_def update_tab_def tabs_select_def
      enumerate_eq_zip)

text \<open>
  What \<^verbatim>\<open>deactivate\<close> does when it is called on the selected tab and no other tab is
  activated: the loop finds no tab to select and the method takes the active class off
  this tab's handle. With the class on no other handle before the call (the widget keeps
  it on the selected tab's handle only), no handle carries it afterwards, and no tab is
  activated. The option \<^verbatim>\<open>selected\<close> of the widget is left as it was: it still holds
  this tab's index.
\<close>

lemma deactivate_last_activated_removes_marker_only:
  assumes k: "k < length (tabs editable)"
    and sel: "selected editable = Some (index (tabs editable ! k))"
    and others: "\<forall>j<length (tabs editable). j \<noteq> k \<longrightarrow> \<not> activated (tabs editable ! j)"
    and marker: "\<forall>j<length (tabs editable). j \<noteq> k \<longrightarrow> \<not> handle_ui_tabs_active (tabs editable ! j)"
  shows "ui_tabs_active_count (deactivate k editable) = 0
         \<and> (\<forall>j<length (tabs editable).
               \<not> activated (tabs (deactivate k editable) ! j)
               \<and> \<not> handle_ui_tabs_active (tabs (deactivate k editable) ! j))
         \<and> selected (deactivate k editable) = Some (index (tabs (deactivate k editable) ! k))
         \<and> selected (deactivate k editable) = selected editable"
proof -
  let ?off = "switched_off k editable"
  from others have "first_activated (tabs ?off) 0 = None"
    by (rule no_other_activated)
  with k sel have res:
    "deactivate k editable = update_tab k (\<lambda>t. t\<lparr>handle_ui_tabs_active := False\<rparr>) ?off"
    by (simp add: deactivate_eq)
  have flags: "\<forall>j<length (tabs editable).
          \<not> activated (tabs (deactivate k editable) ! j)
          \<and> \<not> handle_ui_tabs_active (tabs (deactivate k editable) ! j)"
    using others marker by (auto simp: res nth_update_tab nth_switched_off)
  then have "ui_tabs_active_count (deactivate k editable) = 0"
    by (simp add: count_zero_iff res)
  moreover have "selected (deactivate k editable) = selected editable"
    by (simp add: res)
  moreover have "index (tabs (deactivate k editable) ! k) = index (tabs editable ! k)"
    using k by (simp add: res nth_update_tab nth_switched_off)
  ultimately show ?thesis using flags sel by simp
qed

lemma deactivate_last_activated_removes_marker_only_example:
  "1 < length (tabs only_b) \<and> selected only_b = Some (index (tabs only_b ! 1))
   \<and> \<not> activated (tabs only_b ! 0) \<and> \<not> handle_ui_tabs_active (tabs only_b ! 0)
   \<and> handle_ui_tabs_active (tabs only_b ! 1)
   \<and> ui_tabs_active_count (deactivate 1 only_b) = 0
   \<and> selected (deactivate 1 only_b) = Some 1"
proof -
  have 1: "1 < length (tabs only_b)" by (simp add: only_b_def)
  have 2: "selected only_b = Some (index (tabs only_b ! 1))" by (simp add: only_b_def)
  have 3: "\<forall>j<length (tabs only_b). j \<noteq> 1 \<longrightarrow> \<not> activated (tabs only_b ! j)"
    by (simp add: only_b_def less_Suc_eq)
  have 4: "\<forall>j<length (tabs only_b). j \<noteq> 1 \<longrightarrow> \<not> handle_ui_tabs_active (tabs only_b ! j)"
    by (simp add: only_b_def less_Suc_eq)
  have 5: "\<not> activated (tabs only_b ! 0)" "\<not> handle_ui_tabs_active (tabs only_b ! 0)"
    "handle_ui_tabs_active (tabs only_b ! 1)" "selected only_b = Some 1"
    by (simp_all add: only_b_def)
  from deactivate_last_activated_removes_marker_only [OF 1 2 3 4]
  have r: "ui_tabs_active_count (deactivate 1 only_b) = 0"
    "selected (deactivate 1 only_b) = selected only_b"
    by blast+
  from 1 2 5 r show ?thesis by simp
qed


subsection \<open>\<^verbatim>\<open>activate\<close>\<close>

text \<open>
  Claim C5. For a tab of the editable, \<^verbatim>\<open>activate\<close> sets \<^verbatim>\<open>activated\<close> and shows the
  handle; then it calls the widget's \<^verbatim>\<open>select\<close> with this tab's index if no handle carries
  the active class (no tab is selected) or the widget's option \<^verbatim>\<open>selected\<close> is this tab's
  index, and only then. In that case the tab (its index being its position) is the
  recorded selection, with its handle marked and its panel displayed; otherwise the
  recorded selection, the marks and the panels stay as they were. The method's own
  statements change no panel: the panels differ from before only as \<^verbatim>\<open>select\<close> sets
  them.
\<close>

theorem activate_shows_and_selects:
  assumes k: "k < length (tabs editable)"
  shows "activated (tabs (activate k editable) ! k)
    \<and> handle_visible (tabs (activate k editable) ! k)
    \<and> activate k editable =
        (if ui_tabs_active_count editable = 0 \<or> selected editable = Some (index (tabs editable ! k))
         then tabs_select (index (tabs editable ! k)) (switched_on k editable)
         else switched_on k editable)
    \<and> (ui_tabs_active_count editable = 0 \<or> selected editable = Some (index (tabs editable ! k)) \<longrightarrow>
         index (tabs editable ! k) = k \<longrightarrow>
           selected (activate k editable) = Some k
           \<and> handle_ui_tabs_active (tabs (activate k editable) ! k)
           \<and> panel_visible (tabs (activate k editable) ! k))
    \<and> (\<not> (ui_tabs_active_count editable = 0 \<or> selected editable = Some (index (tabs editable ! k))) \<longrightarrow>
           selected (activate k editable) = selected editable
           \<and> map handle_ui_tabs_active (tabs (activate k editable)) =
               map handle_ui_tabs_active (tabs editable)
           \<and> map panel_visible (tabs (activate k editable)) = map panel_visible (tabs editable))
    \<and> map panel_visible (tabs (switched_on k editable)) = map panel_visible (tabs editable)"
proof -
  let ?on = "switched_on k editable" and ?i = "index (tabs editable ! k)"
  have eq: "activate k editable =
        (if ui_tabs_active_count editable = 0 \<or> selected editable = Some ?i
         then tabs_select ?i ?on else ?on)"
    using k by (simp add: activate_eq)
  have on_k: "activated (tabs ?on ! k)" "handle_visible (tabs ?on ! k)"
    using k by (simp_all add: nth_switched_on)
  have sel_k: "activated (tabs (tabs_select ?i ?on) ! k)"
    "handle_visible (tabs (tabs_select ?i ?on) ! k)"
    using k on_k by (simp_all add: nth_tabs_select)
  have panels: "map panel_visible (tabs ?on) = map panel_visible (tabs editable)"
    by (rule nth_equalityI) (simp_all add: nth_switched_on)
  have marks: "map handle_ui_tabs_active (tabs ?on) = map handle_ui_tabs_active (tabs editable)"
    by (rule nth_equalityI) (simp_all add: nth_switched_on)
  have 1: "activated (tabs (activate k editable) ! k)"
    using on_k sel_k by (simp add: eq)
  have 2: "handle_visible (tabs (activate k editable) ! k)"
    using on_k sel_k by (simp add: eq)
  have 4: "ui_tabs_active_count editable = 0 \<or> selected editable = Some ?i \<longrightarrow> ?i = k \<longrightarrow>
           selected (activate k editable) = Some k
           \<and> handle_ui_tabs_active (tabs (activate k editable) ! k)
           \<and> panel_visible (tabs (activate k editable) ! k)"
    using k by (auto simp: eq selected_tabs_select nth_tabs_select)
  have 5: "\<not> (ui_tabs_active_count editable = 0 \<or> selected editable = Some ?i) \<longrightarrow>
           selected (activate k editable) = selected editable
           \<and> map handle_ui_tabs_active (tabs (activate k editable)) =
               map handle_ui_tabs_active (tabs editable)
           \<and> map panel_visible (tabs (activate k editable)) = map panel_visible (tabs editable)"
    using panels marks by (simp add: eq)
  from 1 2 eq 4 5 panels show ?thesis by blast
qed

text \<open>
  In \<open>lists_table\<close> no tab is selected, so the table tab is selected when it is activated;
  in \<open>abc\<close> tab B is selected, so the activation of C leaves the selection with B.
\<close>

theorem activate_shows_and_selects_witness:
  "1 < length (tabs lists_table) \<and> ui_tabs_active_count lists_table = 0
   \<and> index (tabs lists_table ! 1) = 1
   \<and> selected (activate 1 lists_table) = Some 1
   \<and> map activated (tabs (activate 1 lists_table)) = [False, True]
   \<and> map panel_visible (tabs (activate 1 lists_table)) = [False, True]
   \<and> 2 < length (tabs abc) \<and> ui_tabs_active_count abc \<noteq> 0 \<and> selected abc = Some 1
   \<and> selected (activate 2 abc) = Some 1
   \<and> map activated (tabs (activate 2 abc)) = [True, True, True]
   \<and> map handle_visible (tabs (activate 2 abc)) = [True, True, True]
   \<and> map panel_visible (tabs (activate 2 abc)) = [False, True, False]"
proof -
  have l: "1 < length (tabs lists_table)" "ui_tabs_active_count lists_table = 0"
    "index (tabs lists_table ! 1) = 1"
    by (simp_all add: lists_table_def fresh_def Tab_def ui_tabs_active_count_def)
  have a: "2 < length (tabs abc)" "ui_tabs_active_count abc \<noteq> 0" "selected abc = Some 1"
    "index (tabs abc ! 2) = 2" "map panel_visible (tabs abc) = [False, True, False]"
    by (simp_all add: abc_def ui_tabs_active_count_def)
  from activate_shows_and_selects [OF l(1)] l
  have 1: "selected (activate 1 lists_table) = Some 1"
    by blast
  from activate_shows_and_selects [OF a(1)] a
  have 2: "selected (activate 2 abc) = Some 1"
    "map panel_visible (tabs (activate 2 abc)) = [False, True, False]"
    by simp_all
  have 3: "map activated (tabs (activate 1 lists_table)) = [False, True]"
    "map panel_visible (tabs (activate 1 lists_table)) = [False, True]"
    by (simp_all add: lists_table_def fresh_def Tab_def activate_def handles_def tab_show_def
        update_tab_def ui_tabs_active_count_def tabs_select_def enumerate_eq_zip)
  have 4: "map activated (tabs (activate 2 abc)) = [True, True, True]"
    "map handle_visible (tabs (activate 2 abc)) = [True, True, True]"
    by (simp_all add: abc_def activate_def handles_def tab_show_def
        update_tab_def ui_tabs_active_count_def tabs_select_def enumerate_eq_zip)
  from l a 1 2 3 4 show ?thesis by simp
qed

subsection \<open>Consistent editables stay consistent\<close>

lemma index_ok_iff: "index_ok ed = (\<forall>j<length (tabs ed). index (tabs ed ! j) = j)"
  unfolding index_ok_def list_eq_iff_nth_eq by simp

lemma marker_on_selected_iff:
  "marker_on_selected ed =
     (\<forall>j<length (tabs ed).
        handle_ui_tabs_active (tabs ed ! j) \<longrightarrow> selected ed = Some (index (tabs ed ! j)))"
  by (simp add: marker_on_selected_def list_all_length)

lemma activated_needs_marker_iff:
  "activated_needs_marker ed =
     ((\<forall>j<length (tabs ed). \<not> handle_ui_tabs_active (tabs ed ! j)) \<longrightarrow>
      (\<forall>j<length (tabs ed). \<not> activated (tabs ed ! j)))"
  by (simp add: activated_needs_marker_def list_all_length count_zero_iff)

lemmas consistent_iff =
  consistent_def index_ok_iff marker_on_selected_iff activated_needs_marker_iff

lemma consistent_no_tabs: "tabs ed = [] \<Longrightarrow> consistent ed"
  by (simp add: consistent_iff)

lemma consistent_push_tab:
  "consistent ed \<Longrightarrow> consistent (ed\<lparr>tabs := tabs ed @ [Tab is options ed]\<rparr>)"
  unfolding consistent_iff
  by (auto simp: nth_append Tab_def less_Suc_eq)

lemma consistent_push_tabs: "consistent ed \<Longrightarrow> consistent (push_tabs is cfg ed)"
  by (induction cfg arbitrary: ed) (simp_all add: consistent_push_tab)

lemma consistent_tabs_select: "consistent ed \<Longrightarrow> consistent (tabs_select i ed)"
  unfolding consistent_iff
  by (cases "i < length (tabs ed)") (auto simp: nth_tabs_select selected_tabs_select)

lemma consistent_activate:
  assumes c: "consistent ed"
  shows "consistent (activate k ed)"
proof (cases "k < length (tabs ed)")
  case False
  with c show ?thesis by (simp add: activate_def)
next
  case k: True
  let ?on = "switched_on k ed" and ?i = "index (tabs ed ! k)"
  from c k have i: "?i = k" by (simp add: consistent_iff)
  show ?thesis
  proof (cases "ui_tabs_active_count ed = 0 \<or> selected ed = Some ?i")
    case True
    with k i have eq: "activate k ed = tabs_select k ?on" by (simp add: activate_eq)
    from c k show ?thesis
      unfolding eq consistent_iff
      by (auto simp: nth_tabs_select selected_tabs_select nth_switched_on)
  next
    case False
    with k have eq: "activate k ed = ?on" by (simp add: activate_eq)
    from False have "\<exists>j<length (tabs ed). handle_ui_tabs_active (tabs ed ! j)"
      by (auto simp: count_zero_iff)
    with c k show ?thesis
      unfolding eq consistent_iff
      by (auto simp: nth_switched_on)
  qed
qed

lemma consistent_deactivate:
  assumes c: "consistent ed"
  shows "consistent (deactivate k ed)"
proof (cases "k < length (tabs ed)")
  case False
  with c show ?thesis by (simp add: deactivate_def)
next
  case k: True
  let ?off = "switched_off k ed" and ?i = "index (tabs ed ! k)"
  show ?thesis
  proof (cases "Some ?i = selected ed")
    case False
    with k have eq: "deactivate k ed = ?off" by (simp add: deactivate_eq)
    from c k show ?thesis
      unfolding eq consistent_iff
      by (auto simp: nth_switched_off)
  next
    case sel: True
    show ?thesis
    proof (cases "first_activated (tabs ?off) 0")
      case None
      with k sel have eq:
        "deactivate k ed = update_tab k (\<lambda>t. t\<lparr>handle_ui_tabs_active := False\<rparr>) ?off"
        by (simp add: deactivate_eq)
      from None have "\<forall>j<length (tabs ed). \<not> activated (tabs ?off ! j)"
        by (simp add: first_activated_None all_set_conv_all_nth)
      with c k show ?thesis
        unfolding eq consistent_iff
        by (auto simp: nth_update_tab nth_switched_off)
    next
      case (Some f)
      with k sel have eq: "deactivate k ed = tabs_select f ?off"
        by (simp add: deactivate_eq)
      from first_activated_Some [OF Some] have f: "f < length (tabs ed)" by simp
      from c k f show ?thesis
        unfolding eq consistent_iff
        by (auto simp: nth_tabs_select selected_tabs_select nth_switched_off)
    qed
  qed
qed

lemma consistent_check_tab: "consistent (fst s) \<Longrightarrow> consistent (fst (check_tab k s))"
  by (simp add: check_tab_def Let_def consistent_activate consistent_deactivate)

lemma consistent_fold_check_tab:
  "consistent (fst s) \<Longrightarrow> consistent (fst (fold check_tab ks s))"
  by (induction ks arbitrary: s) (simp_all add: consistent_check_tab)

lemma consistent_each_tab: "consistent ed \<Longrightarrow> consistent (fst (each_tab ed effective))"
  by (simp add: each_tab_def consistent_fold_check_tab)

lemma consistent_checkActiveTabs:
  "\<forall>e. consistent (editables toolbar e) \<Longrightarrow>
   consistent (editables (checkActiveTabs rangeObject toolbar) e)"
  by (cases "active toolbar") (simp_all add: checkActiveTabs_def Let_def consistent_each_tab)

lemma consistent_render:
  assumes "tabs ed = []" and "\<And>x. consistent x \<Longrightarrow> consistent (create x)"
  shows "consistent (render is create ed)"
proof -
  have "consistent (ed\<lparr>toolbar_rendered := True\<rparr>)"
    using assms(1) by (simp add: consistent_no_tabs)
  then show ?thesis
    by (simp add: render_def initializeTabs_def Let_def assms(2) consistent_push_tabs)
qed

lemma consistent_render_first_selected:
  "tabs ed = [] \<Longrightarrow> consistent (render is (tabs_select 0) ed)"
  by (rule consistent_render) (simp_all add: consistent_tabs_select)

text \<open>In a consistent editable the selected tab's handle is the only one that can carry
  the active class, which is the hypothesis of the theorem on the last activated tab.\<close>

lemma consistent_marker_only_on_selected:
  assumes "consistent ed" "k < length (tabs ed)" "selected ed = Some (index (tabs ed ! k))"
    "j < length (tabs ed)" "j \<noteq> k"
  shows "\<not> handle_ui_tabs_active (tabs ed ! j)"
  using assms unfolding consistent_iff by auto

subsection \<open>\<^verbatim>\<open>activate\<close> twice\<close>

lemma tabs_select_twice: "tabs_select i (tabs_select i ed) = tabs_select i ed"
proof (cases "i < length (tabs ed)")
  case False
  then show ?thesis by (simp add: tabs_select_def)
next
  case True
  have "tabs (tabs_select i (tabs_select i ed)) = tabs (tabs_select i ed)"
    by (rule nth_equalityI) (simp_all add: nth_tabs_select True)
  moreover have "tabs_select i (tabs_select i ed) =
     (tabs_select i ed)\<lparr>tabs := tabs (tabs_select i (tabs_select i ed))\<rparr>"
    using True by (simp add: tabs_select_def)
  ultimately show ?thesis by simp
qed

lemma switched_on_again:
  assumes k: "k < length (tabs ed)" and a: "activated (tabs ed ! k)"
    and h: "handle_visible (tabs ed ! k)"
  shows "switched_on k ed = ed"
proof -
  have "tabs (switched_on k ed) = tabs ed"
    by (rule nth_equalityI) (simp_all add: nth_switched_on a h)
  moreover have "switched_on k ed = ed\<lparr>tabs := tabs (switched_on k ed)\<rparr>"
    by (simp add: switched_on_def tab_show_def update_tab_def)
  ultimately show ?thesis by simp
qed

lemma count_tabs_select:
  "i < length (tabs ed) \<Longrightarrow> ui_tabs_active_count (tabs_select i ed) \<noteq> 0"
  by (auto simp: count_zero_iff nth_tabs_select)

lemma activate_twice:
  assumes k: "k < length (tabs ed)"
  shows "activate k (activate k ed) = activate k ed"
proof -
  let ?on = "switched_on k ed" and ?i = "index (tabs ed ! k)"
  have on_k: "activated (tabs ?on ! k)" "handle_visible (tabs ?on ! k)" "index (tabs ?on ! k) = ?i"
    using k by (simp_all add: nth_switched_on)
  have on_on: "switched_on k ?on = ?on"
    using k on_k by (simp add: switched_on_again)
  show ?thesis
  proof (cases "ui_tabs_active_count ed = 0 \<or> selected ed = Some ?i")
    case False
    then have 1: "activate k ed = ?on" using k by (simp add: activate_eq)
    from False on_k on_on k show ?thesis
      by (simp add: 1 activate_eq [of k ?on])
  next
    case True
    then have 1: "activate k ed = tabs_select ?i ?on" using k by (simp add: activate_eq)
    show ?thesis
    proof (cases "?i < length (tabs ed)")
      case out: False
      then have 2: "tabs_select ?i ?on = ?on" by (simp add: tabs_select_def)
      from True on_k on_on k show ?thesis
        by (simp add: 1 2 activate_eq [of k ?on])
    next
      case inside: True
      let ?s = "tabs_select ?i ?on"
      have s_k: "activated (tabs ?s ! k)" "handle_visible (tabs ?s ! k)" "index (tabs ?s ! k) = ?i"
        using k on_k by (simp_all add: nth_tabs_select)
      have s_on: "switched_on k ?s = ?s"
        using k s_k by (simp add: switched_on_again)
      have sel: "selected ?s = Some ?i"
        using inside by (simp add: selected_tabs_select)
      have "activate k ?s = tabs_select ?i ?s"
        using k s_k s_on sel by (simp add: activate_eq [of k ?s])
      then show ?thesis by (simp add: 1 tabs_select_twice)
    qed
  qed
qed

text \<open>
  Claim C6. \<^verbatim>\<open>activate\<close> is idempotent: a second call right after a first leaves the
  editable exactly as the first call left it. And for a tab that is activated already, in
  an editable where an activated tab implies a handle with the active class (which holds
  of every consistent editable, and so of every editable the toolbar's operations
  produce), a call leaves \<^verbatim>\<open>activated\<close> true and the widget's selected index as it was.
\<close>

theorem activate_idempotent:
  assumes k: "k < length (tabs editable)"
  shows "activate k (activate k editable) = activate k editable
    \<and> (activated (tabs editable ! k) \<and> activated_needs_marker editable \<longrightarrow>
         activated (tabs (activate k editable) ! k)
         \<and> selected (activate k editable) = selected editable)"
proof -
  let ?on = "switched_on k editable" and ?i = "index (tabs editable ! k)"
  have "activated (tabs (activate k editable) ! k) \<and> selected (activate k editable) = selected editable"
    if a: "activated (tabs editable ! k)" and m: "activated_needs_marker editable"
  proof -
    have "tabs editable ! k \<in> set (tabs editable)" using k by simp
    with a m have c: "ui_tabs_active_count editable \<noteq> 0"
      by (auto simp: activated_needs_marker_def list_all_iff)
    have on_k: "activated (tabs ?on ! k)"
      using k by (simp add: nth_switched_on)
    show ?thesis
    proof (cases "selected editable = Some ?i")
      case True
      with c k have "activate k editable = tabs_select ?i ?on" by (simp add: activate_eq)
      with True k on_k show ?thesis
        by (simp add: selected_tabs_select nth_tabs_select)
    next
      case False
      with c k have "activate k editable = ?on" by (simp add: activate_eq)
      with on_k show ?thesis by simp
    qed
  qed
  with activate_twice [OF k] show ?thesis by blast
qed

text \<open>
  In \<open>abc\<close> the tabs A and B are activated and B is selected: another \<^verbatim>\<open>activate\<close> of A,
  or of B, leaves the selected index at 1.
\<close>

theorem activate_idempotent_witness:
  "0 < length (tabs abc) \<and> activated (tabs abc ! 0) \<and> activated (tabs abc ! 1)
   \<and> activated_needs_marker abc \<and> selected abc = Some 1
   \<and> activated (tabs (activate 0 abc) ! 0) \<and> selected (activate 0 abc) = Some 1
   \<and> activated (tabs (activate 1 abc) ! 1) \<and> selected (activate 1 abc) = Some 1
   \<and> activate 0 (activate 0 abc) = activate 0 abc"
proof -
  have 0: "0 < length (tabs abc)" and 1: "1 < length (tabs abc)" by (simp_all add: abc_def)
  have 2: "activated (tabs abc ! 0)" "activated (tabs abc ! 1)" by (simp_all add: abc_def)
  have 3: "activated_needs_marker abc"
    by (simp add: abc_def activated_needs_marker_def ui_tabs_active_count_def)
  have 4: "selected abc = Some 1" by (simp add: abc_def)
  from activate_idempotent [OF 0] activate_idempotent [OF 1] 0 2 3 4 show ?thesis by simp
qed

lemma consistent_lists_table: "consistent lists_table"
  unfolding lists_table_def
  by (rule consistent_push_tabs) (simp add: consistent_no_tabs fresh_def)

lemma consistent_only_b: "consistent only_b"
  by (simp add: consistent_def index_ok_def marker_on_selected_def activated_needs_marker_def
      ui_tabs_active_count_def only_b_def)

lemma consistent_abc: "consistent abc"
  by (simp add: consistent_def index_ok_def marker_on_selected_def activated_needs_marker_def
      ui_tabs_active_count_def abc_def)

subsection \<open>The deferred hide\<close>

lemma timeout_callback_active: "is_active (active st) \<Longrightarrow> timeout_callback e st = st"
  by (simp add: timeout_callback_def)

lemma fold_callbacks_active:
  "is_active (active st) \<Longrightarrow> fold (\<lambda>(at, e). timeout_callback e) due st = st"
  by (induction due arbitrary: st) (auto simp: timeout_callback_active)

lemma advance_active:
  "is_active (active st) \<Longrightarrow>
   advance d st = st\<lparr>now := now st + d,
                     timeouts := filter (\<lambda>(at, e). \<not> at \<le> now st + d) (timeouts st)\<rparr>"
  by (simp add: advance_def Let_def fold_callbacks_active)

lemma advance_nothing_due:
  assumes "\<forall>(at, e) \<in> set (timeouts st). now st + d < at"
  shows "advance d st = st\<lparr>now := now st + d\<rparr>"
proof -
  from assms have "filter (\<lambda>(at, e). at \<le> now st + d) (timeouts st) = []"
    by (auto simp: filter_empty_conv)
  moreover from assms have "filter (\<lambda>(at, e). \<not> at \<le> now st + d) (timeouts st) = timeouts st"
    by (auto simp: filter_id_conv)
  ultimately show ?thesis by (simp add: advance_def Let_def)
qed

lemma active_toolbar_show [simp]: "active (toolbar_show is create e st) = ActiveEditable e"
  by (simp add: toolbar_show_def Let_def)

lemma element_visible_toolbar_show [simp]: "element_visible (toolbar_show is create e st)"
  by (simp add: toolbar_show_def Let_def)

lemma timeouts_toolbar_show [simp]: "timeouts (toolbar_show is create e st) = timeouts st"
  by (simp add: toolbar_show_def Let_def)

lemma now_toolbar_show [simp]: "now (toolbar_show is create e st) = now st"
  by (simp add: toolbar_show_def Let_def)

lemma timeout_callback_timeouts_update:
  "timeout_callback e (st\<lparr>timeouts := ts\<rparr>) = (timeout_callback e st)\<lparr>timeouts := ts\<rparr>"
  by (simp add: timeout_callback_def toolbar_hide_def)

lemma fold_callbacks_timeouts_update:
  "fold (\<lambda>(at, e). timeout_callback e) due (st\<lparr>timeouts := ts\<rparr>) =
     (fold (\<lambda>(at, e). timeout_callback e) due st)\<lparr>timeouts := ts\<rparr>"
  by (induction due arbitrary: st) (auto simp: timeout_callback_timeouts_update)

lemma advance_before_due:
  assumes d: "d < 10"
  shows "advance d (editable_deactivated e toolbar) =
     (advance d (toolbar\<lparr>active := ActiveFalse\<rparr>))
       \<lparr>timeouts := timeouts (advance d (toolbar\<lparr>active := ActiveFalse\<rparr>)) @ [(now toolbar + 10, e)]\<rparr>"
proof -
  let ?t = "now toolbar + d"
  let ?cb = "\<lambda>(at, e). timeout_callback e"
  let ?due = "filter (\<lambda>(at, e). at \<le> ?t) (timeouts toolbar)"
  let ?later = "filter (\<lambda>(at, e). \<not> at \<le> ?t) (timeouts toolbar)"
  let ?off = "toolbar\<lparr>active := ActiveFalse\<rparr>"
  have l: "advance d (editable_deactivated e toolbar) =
        fold ?cb ?due (?off\<lparr>now := ?t, timeouts := ?later @ [(now toolbar + 10, e)]\<rparr>)"
    using d by (simp add: advance_def editable_deactivated_def Let_def)
  have r: "advance d ?off = fold ?cb ?due (?off\<lparr>now := ?t, timeouts := ?later\<rparr>)"
    by (simp add: advance_def Let_def)
  have "fold ?cb ?due (?off\<lparr>now := ?t, timeouts := ?later @ [(now toolbar + 10, e)]\<rparr>) =
        (fold ?cb ?due (?off\<lparr>now := ?t\<rparr>))\<lparr>timeouts := ?later @ [(now toolbar + 10, e)]\<rparr>"
    using fold_callbacks_timeouts_update [where due = ?due and st = "?off\<lparr>now := ?t\<rparr>"] by simp
  moreover have "fold ?cb ?due (?off\<lparr>now := ?t, timeouts := ?later\<rparr>) =
        (fold ?cb ?due (?off\<lparr>now := ?t\<rparr>))\<lparr>timeouts := ?later\<rparr>"
    using fold_callbacks_timeouts_update [where due = ?due and st = "?off\<lparr>now := ?t\<rparr>"] by simp
  ultimately show ?thesis by (simp add: l r)
qed

text \<open>
  Claim C9, as the code has it. The handler of the editable-deactivated event does not
  hide the toolbar: it sets \<^verbatim>\<open>toolbar.active\<close> to \<^verbatim>\<open>false\<close> and schedules a callback
  that is due 10 time units later. While fewer than 10 units pass, that callback does
  nothing: the toolbar goes the way it would go with \<^verbatim>\<open>toolbar.active\<close> set to \<^verbatim>\<open>false\<close>
  and no new callback, and the new callback is still pending. When a callback runs it
  reads \<^verbatim>\<open>toolbar.active\<close>: it does nothing if an editable is active at that moment, and
  calls \<^verbatim>\<open>toolbar.hide\<close> otherwise. An activation cancels no pending callback; it makes
  every callback that runs while its editable is still the active one do nothing. With
  no callback pending from before, the toolbar is hidden once 10 units have passed
  without an activation.
\<close>

theorem editable_deactivated_schedules_recheck:
  "element_visible (editable_deactivated e toolbar) = element_visible toolbar
   \<and> active (editable_deactivated e toolbar) = ActiveFalse
   \<and> timeouts (editable_deactivated e toolbar) = timeouts toolbar @ [(now toolbar + 10, e)]
   \<and> (d < 10 \<longrightarrow>
        advance d (editable_deactivated e toolbar) =
          (advance d (toolbar\<lparr>active := ActiveFalse\<rparr>))
            \<lparr>timeouts := timeouts (advance d (toolbar\<lparr>active := ActiveFalse\<rparr>))
                           @ [(now toolbar + 10, e)]\<rparr>)
   \<and> timeout_callback e toolbar =
        (if is_active (active toolbar) then toolbar else toolbar_hide e toolbar)
   \<and> timeouts (editable_activated is create e' toolbar) = timeouts toolbar
   \<and> advance d (editable_activated is create e' toolbar) =
        (editable_activated is create e' toolbar)
          \<lparr>now := now toolbar + d,
           timeouts := filter (\<lambda>(at, e). \<not> at \<le> now toolbar + d) (timeouts toolbar)\<rparr>
   \<and> (timeouts toolbar = [] \<and> 10 \<le> d \<longrightarrow>
        advance d (editable_deactivated e toolbar) =
          toolbar_hide e (toolbar\<lparr>active := ActiveFalse, now := now toolbar + d, timeouts := []\<rparr>))"
proof -
  let ?s = "editable_deactivated e toolbar" and ?a = "editable_activated is create e' toolbar"
  have 1: "element_visible ?s = element_visible toolbar" "active ?s = ActiveFalse"
    "timeouts ?s = timeouts toolbar @ [(now toolbar + 10, e)]"
    by (simp_all add: editable_deactivated_def)
  have 4: "d < 10 \<longrightarrow> advance d ?s =
          (advance d (toolbar\<lparr>active := ActiveFalse\<rparr>))
            \<lparr>timeouts := timeouts (advance d (toolbar\<lparr>active := ActiveFalse\<rparr>))
                           @ [(now toolbar + 10, e)]\<rparr>"
    by (simp add: advance_before_due)
  have 5: "timeout_callback e toolbar =
        (if is_active (active toolbar) then toolbar else toolbar_hide e toolbar)"
    by (simp add: timeout_callback_def)
  have 6: "timeouts ?a = timeouts toolbar"
    by (simp add: editable_activated_def)
  have "is_active (active ?a)" by (simp add: editable_activated_def)
  from advance_active [OF this]
  have 7: "advance d ?a =
        ?a\<lparr>now := now toolbar + d,
           timeouts := filter (\<lambda>(at, e). \<not> at \<le> now toolbar + d) (timeouts toolbar)\<rparr>"
    by (simp add: editable_activated_def)
  have 8: "timeouts toolbar = [] \<and> 10 \<le> d \<longrightarrow> advance d ?s =
          toolbar_hide e (toolbar\<lparr>active := ActiveFalse, now := now toolbar + d, timeouts := []\<rparr>)"
    by (simp add: advance_def Let_def timeout_callback_def editable_deactivated_def)
  from 1 4 5 6 7 8 show ?thesis by blast
qed

text \<open>
  Editable 0 is deactivated at time 100. After 4 units the toolbar is still shown and the
  callback is pending for time 110; after 10 units it is hidden. When editable 1 is
  activated at time 104 and stays active, the toolbar is shown for it at time 110.
\<close>

theorem editable_deactivated_schedules_recheck_witness:
  "(4::nat) < 10 \<and> timeouts idle = [] \<and> (10::nat) \<le> 10
   \<and> element_visible (advance 4 (editable_deactivated 0 idle))
   \<and> timeouts (advance 4 (editable_deactivated 0 idle)) = [(110, 0)]
   \<and> \<not> element_visible (advance 10 (editable_deactivated 0 idle))
   \<and> active (advance 10 (editable_deactivated 0 idle)) = ActiveNull
   \<and> active (advance 6 (editable_activated tag_is id 1
               (advance 4 (editable_deactivated 0 idle)))) = ActiveEditable 1
   \<and> element_visible (advance 6 (editable_activated tag_is id 1
               (advance 4 (editable_deactivated 0 idle))))
   \<and> timeouts (advance 6 (editable_activated tag_is id 1
               (advance 4 (editable_deactivated 0 idle)))) = []"
proof -
  let ?off = "idle\<lparr>active := ActiveFalse\<rparr>"
  let ?s4 = "advance 4 (editable_deactivated 0 idle)"
  have t: "timeouts idle = []" by (simp add: idle_def)
  have n: "now idle = 100" "\<not> eventHandled idle" "element_visible idle"
    by (simp_all add: idle_def)
  have p: "(4::nat) < 10" "timeouts idle = [] \<and> (10::nat) \<le> 10"
    by (simp_all add: t)
  have o: "advance 4 ?off = ?off\<lparr>now := 104\<rparr>"
    by (simp add: advance_def Let_def t n)
  note c = editable_deactivated_schedules_recheck [of 0 idle 4 tag_is id 1]
  note c' = editable_deactivated_schedules_recheck [of 0 idle 10 tag_is id 1]
  from c p have a: "?s4 =
      (advance 4 ?off)\<lparr>timeouts := timeouts (advance 4 ?off) @ [(now idle + 10, 0)]\<rparr>"
    by blast
  then have s4: "?s4 = ?off\<lparr>now := 104, timeouts := [(110, 0)]\<rparr>"
    by (simp add: o t n)
  from c' p have h: "advance 10 (editable_deactivated 0 idle) =
      toolbar_hide 0 (idle\<lparr>active := ActiveFalse, now := now idle + 10, timeouts := []\<rparr>)"
    by blast
  note c6 = editable_deactivated_schedules_recheck [of 0 ?s4 6 tag_is id 1]
  from c6 have r: "advance 6 (editable_activated tag_is id 1 ?s4) =
        (editable_activated tag_is id 1 ?s4)
          \<lparr>now := now ?s4 + 6,
           timeouts := filter (\<lambda>(at, e). \<not> at \<le> now ?s4 + 6) (timeouts ?s4)\<rparr>"
    by blast
  have 1: "element_visible ?s4" "timeouts ?s4 = [(110, 0)]"
    by (simp_all add: s4 n)
  have 3: "\<not> element_visible (advance 10 (editable_deactivated 0 idle))"
    "active (advance 10 (editable_deactivated 0 idle)) = ActiveNull"
    by (simp_all add: h toolbar_hide_def n)
  have 4: "active (advance 6 (editable_activated tag_is id 1 ?s4)) = ActiveEditable 1"
    "element_visible (advance 6 (editable_activated tag_is id 1 ?s4))"
    "timeouts (advance 6 (editable_activated tag_is id 1 ?s4)) = []"
    unfolding r by (simp_all add: editable_activated_def s4)
  from t p 1 3 4 show ?thesis by simp
qed

text \<open>
  The claim as it was stated fails on this run: editable 0 is deactivated at time 100,
  editable 1 is activated at time 105, inside the window, and deactivated at time 108.
  The callback of the first event is still pending then; it runs at time 110, finds no
  editable active and hides the toolbar, 2 units after the last editable-deactivated
  event, and the activation at 105 has cancelled nothing.
\<close>

theorem editable_deactivated_hide_not_cancelled:
  "active (editable_activated tag_is id 1 (advance 5 (editable_deactivated 0 idle)))
     = ActiveEditable 1
   \<and> now (editable_activated tag_is id 1 (advance 5 (editable_deactivated 0 idle))) = 105
   \<and> timeouts (editable_activated tag_is id 1 (advance 5 (editable_deactivated 0 idle)))
       = [(110, 0)]
   \<and> now (editable_deactivated 1 (advance 3
        (editable_activated tag_is id 1 (advance 5 (editable_deactivated 0 idle))))) = 108
   \<and> element_visible (editable_deactivated 1 (advance 3
        (editable_activated tag_is id 1 (advance 5 (editable_deactivated 0 idle)))))
   \<and> now (advance 2 (editable_deactivated 1 (advance 3
        (editable_activated tag_is id 1 (advance 5 (editable_deactivated 0 idle)))))) = 110
   \<and> \<not> element_visible (advance 2 (editable_deactivated 1 (advance 3
        (editable_activated tag_is id 1 (advance 5 (editable_deactivated 0 idle))))))
   \<and> active (advance 2 (editable_deactivated 1 (advance 3
        (editable_activated tag_is id 1 (advance 5 (editable_deactivated 0 idle))))))
       = ActiveNull"
  by (simp add: idle_def lists_table_def fresh_def editable_deactivated_def
      editable_activated_def toolbar_show_def advance_def timeout_callback_def
      toolbar_hide_def Let_def)

subsection \<open>A run of the lists and table tabs\<close>

text \<open>
  The selection moves into a table, then into a list, then to a place with no effective
  element: the table tab is activated and selected; then the lists tab is activated, the
  table tab deactivated and the selection passed on to the lists tab; then the lists tab
  is deactivated, its handle loses the active class and the recorded index stays.
\<close>

lemma run_table_list_nothing:
  "(let s1 = checkActiveTabs (Some \<lparr>markupEffectiveAtStart = Some [Element ''table'']\<rparr>) idle;
        s2 = checkActiveTabs (Some \<lparr>markupEffectiveAtStart = Some [Element ''ul'']\<rparr>) s1;
        s3 = checkActiveTabs (Some \<lparr>markupEffectiveAtStart = Some []\<rparr>) s2
    in map activated (tabs (editables s1 0)) = [False, True]
       \<and> selected (editables s1 0) = Some 1
       \<and> map activated (tabs (editables s2 0)) = [True, False]
       \<and> selected (editables s2 0) = Some 0
       \<and> map activated (tabs (editables s3 0)) = [False, False]
       \<and> selected (editables s3 0) = Some 0
       \<and> ui_tabs_active_count (editables s3 0) = 0)"
  by (simp add: idle_def lists_table_def fresh_def Tab_def checkActiveTabs_def
      effective_elements_def each_tab_def check_tab_def shouldActivateForElements_def
      coerceActivateOnToPredicate_def tag_is_def item_def activate_def deactivate_def
      handles_def tab_show_def tab_hide_def update_tab_def tabs_select_def
      ui_tabs_active_count_def enumerate_eq_zip Let_def)

end
